theory Spec2Isabelle
  imports Complex_Main "HOL-Library.AList" "HOL-Library.Multiset"
begin

section \<open>Data model\<close>

text \<open>
  The program is \<^verbatim>\<open>movie_recommendations.py\<close>: a class \<^verbatim>\<open>Movie_Recommendations\<close>
  holding two dictionaries and a class \<^verbatim>\<open>Movie\<close>. Python's unbounded integers are
  \<^typ>\<open>int\<close>. Python floats are idealised as real numbers: the model adds, divides and
  compares without rounding, where the program works on IEEE doubles. The control flow, the
  exceptions and the cache writes do not depend on this; a computed similarity or prediction
  does, so nothing below is meant as a statement about the rounded value of such a
  computation, and the concrete values that occur are the exact ones.

  A Python exception is a value of type \<open>error\<close>. The program defines
  \<^verbatim>\<open>BadInputError\<close>; \<^verbatim>\<open>KeyError\<close> and \<^verbatim>\<open>TypeError\<close> are the built-in exceptions its
  dictionary lookups and its subtraction on \<^verbatim>\<open>None\<close> can raise.
\<close>

datatype error = BadInputError | KeyError | TypeError

text \<open>
  An object of class \<^verbatim>\<open>Movie\<close>. The field \<^verbatim>\<open>id\<close> is named \<open>id_movie\<close> here.
  \<^verbatim>\<open>users\<close> is a Python list (order and repetitions are kept), \<^verbatim>\<open>similarities\<close>
  a dictionary that is only looked up and stored into.
\<close>

record movie =
  id_movie :: int
  title :: string
  users :: "int list"
  similarities :: "int \<rightharpoonup> real"

text \<open>
  An object of class \<^verbatim>\<open>Movie_Recommendations\<close>. \<^verbatim>\<open>movie_dict\<close> maps a movie id to its
  \<^verbatim>\<open>Movie\<close> object; the objects are mutable and reached only through this dictionary, so
  the dictionary is the store and a movie id is the reference to the object.
  \<^verbatim>\<open>user_dict\<close> maps a user id to that user's dictionary from movie id to rating; the
  inner dictionary is iterated over, so it is an association list in insertion order.

  \<open>computed\<close> is a history variable, not a field of the program: it records every entry
  into the body of \<^verbatim>\<open>compute_similarity\<close> as the pair (id of the calling movie, other
  movie id), so that statements about how often the computation runs can be written.
\<close>

record recommendations =
  movie_dict :: "int \<rightharpoonup> movie"
  user_dict :: "int \<rightharpoonup> (int \<times> real) list"
  computed :: "(int \<times> int) list"

section \<open>Loading: the constructors\<close>

text \<open>\<^verbatim>\<open>Movie.__init__\<close>\<close>

definition Movie :: "int \<Rightarrow> string \<Rightarrow> movie" where
  "Movie i t = \<lparr>id_movie = i, title = t, users = [], similarities = Map.empty\<rparr>"

text \<open>
  \<^verbatim>\<open>Movie_Recommendations.__init__\<close>, on the rows of the two files already parsed:
  a movie row is (movie id, title), a rating row is (user id, movie id, rating).
  Reading and parsing the files is outside the model.
\<close>

fun load_movies :: "(int \<times> string) list \<Rightarrow> (int \<rightharpoonup> movie) \<Rightarrow> (int \<rightharpoonup> movie)" where
  "load_movies [] md = md"
| "load_movies ((movieid, movietitle) # rows) md =
     load_movies rows (md(movieid \<mapsto> Movie movieid movietitle))"

fun load_ratings ::
  "(int \<times> int \<times> real) list \<Rightarrow> recommendations \<Rightarrow> error + recommendations" where
  "load_ratings [] s = Inr s"
| "load_ratings ((userid, movieid, movierating) # rows) s =
     (case movie_dict s movieid of
        None \<Rightarrow> Inl KeyError
      | Some mv \<Rightarrow>
          load_ratings rows
            (s\<lparr>movie_dict := (movie_dict s)(movieid \<mapsto> mv\<lparr>users := users mv @ [userid]\<rparr>),
               user_dict :=
                 (case user_dict s userid of
                    Some this_user_dict \<Rightarrow>
                      (user_dict s)(userid \<mapsto> AList.update movieid movierating this_user_dict)
                  | None \<Rightarrow> (user_dict s)(userid \<mapsto> [(movieid, movierating)]))\<rparr>))"

definition init ::
  "(int \<times> string) list \<Rightarrow> (int \<times> int \<times> real) list \<Rightarrow> error + recommendations" where
  "init movie_rows rating_rows =
     load_ratings rating_rows
       \<lparr>movie_dict = load_movies movie_rows Map.empty, user_dict = Map.empty, computed = []\<rparr>"

section \<open>The similarity engine: class Movie\<close>

text \<open>The first loop of \<^verbatim>\<open>compute_similarity\<close>: the users of \<open>self\<close> that are also in the
  other movie's list, in the order (and with the repetitions) of \<open>self.users\<close>.\<close>

definition common_users :: "movie \<Rightarrow> movie \<Rightarrow> int list" where
  "common_users self other = filter (\<lambda>user. user \<in> set (users other)) (users self)"

text \<open>The second loop: \<^verbatim>\<open>user_dict[u]\<close> raises \<^verbatim>\<open>KeyError\<close> on an unknown user,
  \<^verbatim>\<open>.get\<close> returns \<^verbatim>\<open>None\<close> on a missing rating.\<close>

fun get_ratings ::
  "(int \<rightharpoonup> (int \<times> real) list) \<Rightarrow> int \<Rightarrow> int \<Rightarrow> int list
     \<Rightarrow> error + (real option \<times> real option) list" where
  "get_ratings ud i j [] = Inr []"
| "get_ratings ud i j (u # us) =
     (case ud u of
        None \<Rightarrow> Inl KeyError
      | Some d \<Rightarrow>
          (case get_ratings ud i j us of
             Inl e \<Rightarrow> Inl e
           | Inr ps \<Rightarrow> Inr ((map_of d i, map_of d j) # ps)))"

text \<open>The third loop: \<^verbatim>\<open>abs(self_ratings[user] - another_ratings[user])\<close>; subtracting
  with \<^verbatim>\<open>None\<close> raises \<^verbatim>\<open>TypeError\<close>.\<close>

fun abs_diffs :: "(real option \<times> real option) list \<Rightarrow> error + real list" where
  "abs_diffs [] = Inr []"
| "abs_diffs ((Some x, Some y) # ps) =
     (case abs_diffs ps of Inl e \<Rightarrow> Inl e | Inr ds \<Rightarrow> Inr (\<bar>x - y\<bar> # ds))"
| "abs_diffs (p # ps) = Inl TypeError"

text \<open>\<^verbatim>\<open>m.similarities[k] = v\<close> for the movie object referenced by \<open>key\<close>.\<close>

definition store_similarity :: "int \<Rightarrow> int \<Rightarrow> real \<Rightarrow> recommendations \<Rightarrow> recommendations" where
  "store_similarity key k v s =
     (case movie_dict s key of
        None \<Rightarrow> s
      | Some m \<Rightarrow>
          s\<lparr>movie_dict := (movie_dict s)(key \<mapsto> m\<lparr>similarities := (similarities m)(k \<mapsto> v)\<rparr>)\<rparr>)"

text \<open>
  \<^verbatim>\<open>Movie.compute_similarity(self, other_movie_id, movie_dict, user_dict)\<close>, with \<open>self\<close>
  the object \<^verbatim>\<open>movie_dict[self_key]\<close>. When \<open>self_key\<close> is not a key, the caller's own
  lookup raises \<^verbatim>\<open>KeyError\<close> and the method is not entered.
  \<^verbatim>\<open>movie_dict[other_movie_id]\<close> is evaluated inside the loop over \<open>self.users\<close>, so it
  raises only when that list is not empty. The result is stored in the cache of \<open>self\<close>
  only (line 206), and only when there is a common user.
\<close>

definition compute_similarity ::
  "int \<Rightarrow> int \<Rightarrow> recommendations \<Rightarrow> (error + real) \<times> recommendations" where
  "compute_similarity self_key other_movie_id s0 =
     (case movie_dict s0 self_key of
        None \<Rightarrow> (Inl KeyError, s0)
      | Some self \<Rightarrow>
          (let s = s0\<lparr>computed := computed s0 @ [(self_key, other_movie_id)]\<rparr> in
           case (if users self = [] then Inr []
                 else (case movie_dict s other_movie_id of
                         None \<Rightarrow> Inl KeyError
                       | Some other \<Rightarrow> Inr (common_users self other))) of
             Inl e \<Rightarrow> (Inl e, s)
           | Inr common \<Rightarrow>
               (case get_ratings (user_dict s) (id_movie self) other_movie_id common of
                  Inl e \<Rightarrow> (Inl e, s)
                | Inr ratings \<Rightarrow>
                    if length common = 0 then (Inr 0, s)
                    else
                      (case abs_diffs ratings of
                         Inl e \<Rightarrow> (Inl e, s)
                       | Inr diff_list \<Rightarrow>
                           (let avg_diff = sum_list diff_list / real (length common);
                                similarity = 1 - avg_diff / (9 / 2)
                            in (Inr similarity,
                                store_similarity self_key other_movie_id similarity s))))))"

text \<open>\<^verbatim>\<open>except KeyError: raise BadInputError\<close>; any other exception passes through.\<close>

fun except_KeyError :: "error \<Rightarrow> error" where
  "except_KeyError KeyError = BadInputError"
| "except_KeyError e = e"

text \<open>
  \<^verbatim>\<open>Movie.get_similarity(self, other_movie_id, movie_dict, user_dict)\<close>, again with
  \<open>self = movie_dict[self_key]\<close> looked up by the caller.
\<close>

definition get_similarity ::
  "int \<Rightarrow> int \<Rightarrow> recommendations \<Rightarrow> (error + real) \<times> recommendations" where
  "get_similarity self_key other_movie_id s =
     (case movie_dict s self_key of
        None \<Rightarrow> (Inl KeyError, s)
      | Some self \<Rightarrow>
          (case similarities self other_movie_id of
             Some v \<Rightarrow> (Inr v, s)
           | None \<Rightarrow>
               (case compute_similarity self_key other_movie_id s of
                  (Inl e, s1) \<Rightarrow> (Inl (except_KeyError e), s1)
                | (Inr similarity, s1) \<Rightarrow>
                    (let s2 = store_similarity self_key other_movie_id similarity s1 in
                     case movie_dict s2 other_movie_id of
                       None \<Rightarrow> (Inl BadInputError, s2)
                     | Some other \<Rightarrow>
                         (Inr similarity,
                          store_similarity other_movie_id (id_movie self) similarity s2)))))"

section \<open>The prediction engine: class Movie\_Recommendations\<close>

text \<open>
  The loop of \<^verbatim>\<open>predict_rating\<close> over the user's dictionary, with the two accumulators
  \<^verbatim>\<open>product_1\<close> and \<^verbatim>\<open>sim\<close>. It calls \<^verbatim>\<open>compute_similarity\<close> on the rated movie,
  not \<^verbatim>\<open>get_similarity\<close>.
\<close>

fun predict_loop ::
  "int \<Rightarrow> (int \<times> real) list \<Rightarrow> real \<Rightarrow> real \<Rightarrow> recommendations
     \<Rightarrow> (error + real \<times> real) \<times> recommendations" where
  "predict_loop movie_id [] product_1 sim s = (Inr (product_1, sim), s)"
| "predict_loop movie_id ((mv, rating) # rest) product_1 sim s =
     (case compute_similarity mv movie_id s of
        (Inl e, s1) \<Rightarrow> (Inl e, s1)
      | (Inr similarity, s1) \<Rightarrow>
          predict_loop movie_id rest (product_1 + rating * similarity) (sim + similarity) s1)"

definition predict_rating ::
  "int \<Rightarrow> int \<Rightarrow> recommendations \<Rightarrow> (error + real) \<times> recommendations" where
  "predict_rating user_id movie_id s =
     (case user_dict s user_id of
        None \<Rightarrow> (Inl BadInputError, s)
      | Some d \<Rightarrow>
          (case map_of d movie_id of
             Some r \<Rightarrow> (Inr r, s)
           | None \<Rightarrow>
               (case predict_loop movie_id d 0 0 s of
                  (Inl e, s1) \<Rightarrow> (Inl (except_KeyError e), s1)
                | (Inr (product_1, sim), s1) \<Rightarrow>
                    if sim = 0 then (Inr (5 / 2), s1) else (Inr (product_1 / sim), s1))))"

text \<open>
  \<^verbatim>\<open>predict_ratings\<close>, on the rows (user id, movie id, actual rating) of the test file
  already parsed. The title lookup \<^verbatim>\<open>self.movie_dict[...]\<close> is outside any \<^verbatim>\<open>try\<close>.
\<close>

fun predict_ratings_loop ::
  "(int \<times> int \<times> real) list \<Rightarrow> (int \<times> string \<times> real \<times> real) list \<Rightarrow> recommendations
     \<Rightarrow> (error + (int \<times> string \<times> real \<times> real) list) \<times> recommendations" where
  "predict_ratings_loop [] tuples s = (Inr tuples, s)"
| "predict_ratings_loop ((u, m, actual_rating) # rows) tuples s =
     (case predict_rating u m s of
        (Inl e, s1) \<Rightarrow> (Inl e, s1)
      | (Inr predicted, s1) \<Rightarrow>
          (case movie_dict s1 m of
             None \<Rightarrow> (Inl KeyError, s1)
           | Some mv \<Rightarrow>
               predict_ratings_loop rows (tuples @ [(u, title mv, predicted, actual_rating)]) s1))"

definition predict_ratings ::
  "(int \<times> int \<times> real) list \<Rightarrow> recommendations
     \<Rightarrow> (error + (int \<times> string \<times> real \<times> real) list) \<times> recommendations" where
  "predict_ratings rows s = predict_ratings_loop rows [] s"

section \<open>Properties of a catalog\<close>

text \<open>
  The part of the state that is loaded once and that the engines only read: the whole of
  \<^verbatim>\<open>user_dict\<close>, the keys of \<^verbatim>\<open>movie_dict\<close> and, for every movie, its id, title and
  rater list. What is left out is the \<^verbatim>\<open>similarities\<close> dictionary of every movie and the
  history variable.
\<close>

definition catalog_data ::
  "recommendations \<Rightarrow> (int \<rightharpoonup> (int \<times> real) list) \<times> (int \<rightharpoonup> int \<times> string \<times> int list)" where
  "catalog_data s =
     (user_dict s, \<lambda>k. map_option (\<lambda>m. (id_movie m, title m, users m)) (movie_dict s k))"

text \<open>
  The integrity conditions of a catalog: a movie is stored under its own id; every rater of a
  movie is a known user who has a rating for it; every known user has at least one rating,
  has one rating per movie, and every movie a user rated is in the catalog and lists the user
  as a rater. The constructor establishes them (lemma \<open>init_integrity\<close>).
\<close>

definition integrity :: "recommendations \<Rightarrow> bool" where
  "integrity s \<longleftrightarrow>
     (\<forall>k m. movie_dict s k = Some m \<longrightarrow>
        id_movie m = k \<and>
        (\<forall>u \<in> set (users m). \<exists>d. user_dict s u = Some d \<and> map_of d k \<noteq> None)) \<and>
     (\<forall>u d. user_dict s u = Some d \<longrightarrow>
        d \<noteq> [] \<and> distinct (map fst d) \<and>
        (\<forall>k \<in> fst ` set d. \<exists>m. movie_dict s k = Some m \<and> u \<in> set (users m)))"

text \<open>One cache entry of a movie given by its id.\<close>

definition cache_of :: "recommendations \<Rightarrow> int \<Rightarrow> int \<Rightarrow> real option" where
  "cache_of s a b = (case movie_dict s a of None \<Rightarrow> None | Some m \<Rightarrow> similarities m b)"

subsection \<open>The value of the similarity computation\<close>

text \<open>
  The value \<^verbatim>\<open>compute_similarity\<close> returns in a catalog that satisfies the integrity
  conditions, as a function of the catalog alone (lemma \<open>compute_similarity_value\<close>). It is
  read off the code: the absolute rating differences are averaged over \<open>common_users\<close>,
  that is over the entries of the calling movie's rater list that occur in the other list,
  in that order and with their repetitions. It serves the lemmas about errors, caches and
  the batch evaluator; it is exact arithmetic, like the model.
\<close>

definition rating_of :: "recommendations \<Rightarrow> int \<Rightarrow> int \<Rightarrow> real" where
  "rating_of s u k =
     (case user_dict s u of
        None \<Rightarrow> 0
      | Some d \<Rightarrow> (case map_of d k of None \<Rightarrow> 0 | Some r \<Rightarrow> r))"

definition average_absolute_difference ::
  "recommendations \<Rightarrow> int \<Rightarrow> int \<Rightarrow> int list \<Rightarrow> real" where
  "average_absolute_difference s a b c =
     sum_list (map (\<lambda>u. \<bar>rating_of s u a - rating_of s u b\<bar>) c) / real (length c)"

definition similarity_value :: "recommendations \<Rightarrow> int \<Rightarrow> int \<Rightarrow> real" where
  "similarity_value s a b =
     (case movie_dict s a of
        None \<Rightarrow> 0
      | Some ma \<Rightarrow>
          (case movie_dict s b of
             None \<Rightarrow> 0
           | Some mb \<Rightarrow>
               if common_users ma mb = [] then 0
               else 1 - average_absolute_difference s a b (common_users ma mb) / (9 / 2)))"

subsection \<open>The batch evaluator as the specification words it\<close>

text \<open>
  The tuple the specification asks for a row (user id, movie id, actual rating): the user id,
  the movie's title, what \<^verbatim>\<open>predict_rating\<close> returns for this user and movie, and the actual
  rating. \<open>raises_BadInput\<close> says that \<^verbatim>\<open>predict_rating\<close> raises \<^verbatim>\<open>BadInputError\<close>
  for the row.
\<close>

definition expected_tuple ::
  "recommendations \<Rightarrow> int \<times> int \<times> real \<Rightarrow> int \<times> string \<times> real \<times> real" where
  "expected_tuple s row =
     (case row of (u, m, actual_rating) \<Rightarrow>
        (u,
         (case movie_dict s m of None \<Rightarrow> [] | Some mv \<Rightarrow> title mv),
         (case fst (predict_rating u m s) of Inl e \<Rightarrow> 0 | Inr predicted \<Rightarrow> predicted),
         actual_rating))"

definition raises_BadInput :: "recommendations \<Rightarrow> int \<times> int \<times> real \<Rightarrow> bool" where
  "raises_BadInput s row =
     (case row of (u, m, actual_rating) \<Rightarrow> fst (predict_rating u m s) = Inl BadInputError)"

text \<open>
  A batch that fails fast looks at the rows up to and including the first one for which
  \<^verbatim>\<open>predict_rating\<close> raises, and at no row after it: \<open>processed_rows\<close> is that part of
  the batch (the whole batch when no row raises). \<open>state_after\<close> is the state left by
  calling \<^verbatim>\<open>predict_rating\<close> on the given rows one after the other, and on nothing else.
\<close>

fun processed_rows ::
  "recommendations \<Rightarrow> (int \<times> int \<times> real) list \<Rightarrow> (int \<times> int \<times> real) list" where
  "processed_rows s [] = []"
| "processed_rows s (row # rows) =
     (if raises_BadInput s row then [row] else row # processed_rows s rows)"

fun state_after :: "recommendations \<Rightarrow> (int \<times> int \<times> real) list \<Rightarrow> recommendations" where
  "state_after s [] = s"
| "state_after s ((u, m, actual_rating) # rows) = state_after (snd (predict_rating u m s)) rows"

subsection \<open>Reachable states and cache invariants\<close>

text \<open>
  The states of a run: what the constructor returns, and what any call of the three methods
  that touch the caches leaves behind, whether the call returns or raises.
\<close>

inductive reachable :: "recommendations \<Rightarrow> bool" where
  loaded: "init movie_rows rating_rows = Inr s \<Longrightarrow> reachable s"
| after_get_similarity: "reachable s \<Longrightarrow> reachable (snd (get_similarity a b s))"
| after_compute_similarity: "reachable s \<Longrightarrow> reachable (snd (compute_similarity a b s))"
| after_predict_rating: "reachable s \<Longrightarrow> reachable (snd (predict_rating u m s))"

text \<open>A cached similarity of a movie with itself is 1 with raters and 0 without.\<close>

definition self_cache_ok :: "recommendations \<Rightarrow> bool" where
  "self_cache_ok s \<longleftrightarrow>
     (\<forall>m mv v. movie_dict s m = Some mv \<and> similarities mv m = Some v \<longrightarrow>
        v = (if users mv = [] then 0 else 1))"

text \<open>The symmetry of the caches: an entry of \<open>a\<close> for \<open>b\<close> is also an entry of \<open>b\<close> for
  \<open>a\<close>, with the same value.\<close>

definition caches_symmetric :: "recommendations \<Rightarrow> bool" where
  "caches_symmetric s \<longleftrightarrow> (\<forall>a b v. cache_of s a b = Some v \<longrightarrow> cache_of s b a = Some v)"

subsection \<open>A small catalog\<close>

text \<open>
  \<open>example\<close> is the catalog of the specification's end-to-end example: movies 1 and 2,
  users 10 and 11 who rated both, user 12 who rated movie 1 only. It is what the constructor
  builds from the corresponding rows (lemma \<open>example_init\<close>).
\<close>

definition example :: recommendations where
  "example =
     \<lparr>movie_dict =
        [1 \<mapsto> \<lparr>id_movie = 1, title = ''A'', users = [10, 11, 12], similarities = Map.empty\<rparr>,
         2 \<mapsto> \<lparr>id_movie = 2, title = ''B'', users = [10, 11], similarities = Map.empty\<rparr>],
      user_dict = [10 \<mapsto> [(1, 4), (2, 5)], 11 \<mapsto> [(1, 2), (2, 2)], 12 \<mapsto> [(1, 3)]],
      computed = []\<rparr>"

section \<open>Lemmas\<close>

lemma catalog_data_user_dict: "catalog_data s = catalog_data t \<Longrightarrow> user_dict s = user_dict t"
  by (simp add: catalog_data_def)

lemma catalog_data_movie:
  assumes "catalog_data s = catalog_data t"
  shows "map_option (\<lambda>m. (id_movie m, title m, users m)) (movie_dict s k) =
         map_option (\<lambda>m. (id_movie m, title m, users m)) (movie_dict t k)"
  using assms by (simp add: catalog_data_def fun_eq_iff)

lemma catalog_data_None:
  "catalog_data s = catalog_data t \<Longrightarrow> movie_dict s k = None \<Longrightarrow> movie_dict t k = None"
  using catalog_data_movie [of s t k] by simp

lemma catalog_data_Some:
  "catalog_data s = catalog_data t \<Longrightarrow> movie_dict s k = Some m \<Longrightarrow>
   \<exists>m'. movie_dict t k = Some m' \<and> id_movie m' = id_movie m \<and> title m' = title m \<and> users m' = users m"
  using catalog_data_movie [of s t k] by (cases "movie_dict t k") auto

lemma catalog_data_store [simp]:
  "catalog_data (store_similarity key k v s) = catalog_data s"
  by (auto simp: catalog_data_def store_similarity_def fun_eq_iff split: option.splits)

lemma catalog_data_computed [simp]:
  "catalog_data (s\<lparr>computed := c\<rparr>) = catalog_data s"
  by (simp add: catalog_data_def)

lemma catalog_data_compute [simp]:
  "catalog_data (snd (compute_similarity a b s)) = catalog_data s"
  by (simp add: compute_similarity_def Let_def split: option.splits sum.splits)

lemma catalog_data_get_similarity [simp]:
  "catalog_data (snd (get_similarity a b s)) = catalog_data s"
proof -
  obtain r s1 where eq: "compute_similarity a b s = (r, s1)"
    by (cases "compute_similarity a b s")
  have "catalog_data s1 = catalog_data s"
    using catalog_data_compute [of a b s] eq by simp
  then show ?thesis
    by (simp add: get_similarity_def Let_def eq split: option.splits sum.splits)
qed

lemma catalog_data_predict_loop [simp]:
  "catalog_data (snd (predict_loop m d p w s)) = catalog_data s"
proof (induction d arbitrary: p w s)
  case Nil
  show ?case by simp
next
  case (Cons x d)
  obtain mv r where x: "x = (mv, r)" by (cases x)
  obtain res s1 where eq: "compute_similarity mv m s = (res, s1)"
    by (cases "compute_similarity mv m s")
  have c: "catalog_data s1 = catalog_data s"
    using catalog_data_compute [of mv m s] eq by simp
  show ?case
    by (cases res) (simp_all add: x eq c Cons.IH)
qed

lemma catalog_data_predict_rating [simp]:
  "catalog_data (snd (predict_rating u m s)) = catalog_data s"
proof (cases "user_dict s u")
  case None
  then show ?thesis by (simp add: predict_rating_def)
next
  case (Some d)
  obtain res s1 where eq: "predict_loop m d 0 0 s = (res, s1)"
    by (cases "predict_loop m d 0 0 s")
  have c: "catalog_data s1 = catalog_data s"
    using catalog_data_predict_loop [of m d 0 0 s] eq by simp
  show ?thesis
    by (cases res) (auto simp: predict_rating_def Some eq c split: option.splits)
qed

lemma get_ratings_ok:
  "\<forall>u \<in> set c. \<exists>d. ud u = Some d \<Longrightarrow>
   get_ratings ud i j c = Inr (map (\<lambda>u. (map_of (the (ud u)) i, map_of (the (ud u)) j)) c)"
  by (induction c) auto

lemma abs_diffs_ok:
  "\<forall>p \<in> set ps. fst p \<noteq> None \<and> snd p \<noteq> None \<Longrightarrow>
   abs_diffs ps = Inr (map (\<lambda>p. \<bar>the (fst p) - the (snd p)\<bar>) ps)"
  by (induction ps rule: abs_diffs.induct) auto

lemma integrity_id: "integrity s \<Longrightarrow> movie_dict s k = Some m \<Longrightarrow> id_movie m = k"
  by (simp add: integrity_def)

lemma integrity_rater:
  "integrity s \<Longrightarrow> movie_dict s k = Some m \<Longrightarrow> u \<in> set (users m) \<Longrightarrow>
   \<exists>d r. user_dict s u = Some d \<and> map_of d k = Some r"
  unfolding integrity_def by (metis not_None_eq)

lemma integrity_rated:
  "integrity s \<Longrightarrow> user_dict s u = Some d \<Longrightarrow> (k, r) \<in> set d \<Longrightarrow>
   \<exists>m. movie_dict s k = Some m \<and> u \<in> set (users m)"
  unfolding integrity_def by (metis fst_conv image_eqI)

lemma integrity_nonempty: "integrity s \<Longrightarrow> user_dict s u = Some d \<Longrightarrow> d \<noteq> []"
  unfolding integrity_def by blast

lemma integrity_cong: "catalog_data s = catalog_data t \<Longrightarrow> integrity s \<Longrightarrow> integrity t"
proof -
  assume eq: "catalog_data s = catalog_data t" and i: "integrity s"
  have ud: "user_dict t = user_dict s" using eq by (simp add: catalog_data_def)
  have md: "\<And>k m. movie_dict t k = Some m \<Longrightarrow>
      \<exists>m'. movie_dict s k = Some m' \<and> id_movie m' = id_movie m \<and> users m' = users m"
    using catalog_data_Some [OF eq [symmetric]] by blast
  have md': "\<And>k m. movie_dict s k = Some m \<Longrightarrow>
      \<exists>m'. movie_dict t k = Some m' \<and> id_movie m' = id_movie m \<and> users m' = users m"
    using catalog_data_Some [OF eq] by blast
  show "integrity t"
    unfolding integrity_def
  proof (intro conjI allI impI)
    fix k m assume "movie_dict t k = Some m"
    then obtain m' where m': "movie_dict s k = Some m'" "id_movie m' = id_movie m" "users m' = users m"
      using md by blast
    show "id_movie m = k" using integrity_id [OF i m'(1)] m'(2) by simp
    show "\<forall>u\<in>set (users m). \<exists>d. user_dict t u = Some d \<and> map_of d k \<noteq> None"
      using integrity_rater [OF i m'(1)] m'(3) ud by fastforce
  next
    fix u d assume d: "user_dict t u = Some d"
    then have d': "user_dict s u = Some d" using ud by simp
    show "d \<noteq> []" using integrity_nonempty [OF i d'] .
    show "distinct (map fst d)" using i d' unfolding integrity_def by blast
    show "\<forall>k\<in>fst ` set d. \<exists>m. movie_dict t k = Some m \<and> u \<in> set (users m)"
    proof
      fix k assume "k \<in> fst ` set d"
      then obtain r where "(k, r) \<in> set d" by auto
      then obtain m where m: "movie_dict s k = Some m" "u \<in> set (users m)"
        using integrity_rated [OF i d'] by blast
      then show "\<exists>m. movie_dict t k = Some m \<and> u \<in> set (users m)"
        using md' by fastforce
    qed
  qed
qed

lemma compute_similarity_local:
  assumes a: "movie_dict s a = Some ma" and b: "movie_dict s b = Some mb"
    and ida: "id_movie ma = a"
    and ra: "\<forall>u \<in> set (users ma). \<exists>d r. user_dict s u = Some d \<and> map_of d a = Some r"
    and rb: "\<forall>u \<in> set (users mb). \<exists>d r. user_dict s u = Some d \<and> map_of d b = Some r"
  shows "fst (compute_similarity a b s) = Inr (similarity_value s a b)"
proof -
  let ?c = "common_users ma mb"
  have rated: "\<exists>d x y. user_dict s u = Some d \<and> map_of d a = Some x \<and> map_of d b = Some y"
    if "u \<in> set ?c" for u
  proof -
    from that have ua: "u \<in> set (users ma)" and ub: "u \<in> set (users mb)"
      by (simp_all add: common_users_def)
    from ra ua rb ub show ?thesis by fastforce
  qed
  have g: "get_ratings (user_dict s) a b ?c =
      Inr (map (\<lambda>u. (map_of (the (user_dict s u)) a, map_of (the (user_dict s u)) b)) ?c)"
    by (rule get_ratings_ok) (use rated in blast)
  have d: "abs_diffs (map (\<lambda>u. (map_of (the (user_dict s u)) a, map_of (the (user_dict s u)) b)) ?c) =
      Inr (map (\<lambda>u. \<bar>rating_of s u a - rating_of s u b\<bar>) ?c)"
  proof -
    have "abs_diffs (map (\<lambda>u. (map_of (the (user_dict s u)) a, map_of (the (user_dict s u)) b)) ?c) =
      Inr (map (\<lambda>p. \<bar>the (fst p) - the (snd p)\<bar>)
        (map (\<lambda>u. (map_of (the (user_dict s u)) a, map_of (the (user_dict s u)) b)) ?c))"
      by (rule abs_diffs_ok) (use rated in fastforce)
    also have "map (\<lambda>p. \<bar>the (fst p) - the (snd p)\<bar>)
        (map (\<lambda>u. (map_of (the (user_dict s u)) a, map_of (the (user_dict s u)) b)) ?c) =
        map (\<lambda>u. \<bar>rating_of s u a - rating_of s u b\<bar>) ?c"
      using rated by (fastforce simp: rating_of_def)
    finally show ?thesis .
  qed
  have e: "users ma = [] \<Longrightarrow> ?c = []" by (simp add: common_users_def)
  show ?thesis
    using e by (simp add: compute_similarity_def similarity_value_def a b ida g d Let_def
        average_absolute_difference_def)
qed

lemma compute_similarity_value:
  assumes i: "integrity s" and a: "movie_dict s a = Some ma" and b: "movie_dict s b = Some mb"
  shows "fst (compute_similarity a b s) = Inr (similarity_value s a b)"
  using integrity_rater [OF i a] integrity_rater [OF i b]
  by (intro compute_similarity_local [OF a b integrity_id [OF i a]]) blast+

lemma load_movies_fresh:
  "\<forall>k m. md k = Some m \<longrightarrow> id_movie m = k \<and> users m = [] \<Longrightarrow>
   load_movies rows md k = Some m \<Longrightarrow> id_movie m = k \<and> users m = []"
proof (induction rows arbitrary: md)
  case Nil
  then show ?case by simp
next
  case (Cons row rows)
  obtain i t where row: "row = (i, t)" by (cases row)
  have h: "\<forall>k m. (md(i \<mapsto> Movie i t)) k = Some m \<longrightarrow> id_movie m = k \<and> users m = []"
    using Cons.prems(1) by (auto simp: Movie_def)
  have "load_movies rows (md(i \<mapsto> Movie i t)) k = Some m"
    using Cons.prems(2) by (simp add: row)
  from Cons.IH [OF h this] show ?case .
qed

lemma integrity_start:
  "integrity \<lparr>movie_dict = load_movies movie_rows Map.empty, user_dict = Map.empty, computed = []\<rparr>"
proof -
  have "id_movie m = k \<and> users m = []" if "load_movies movie_rows Map.empty k = Some m" for k m
    using load_movies_fresh [of Map.empty movie_rows k m] that by simp
  then show ?thesis by (auto simp: integrity_def)
qed

lemma integrity_rating_row:
  assumes i: "integrity s" and mv: "movie_dict s movieid = Some mv"
  shows "integrity
    (s\<lparr>movie_dict := (movie_dict s)(movieid \<mapsto> mv\<lparr>users := users mv @ [userid]\<rparr>),
       user_dict :=
         (case user_dict s userid of
            Some this_user_dict \<Rightarrow>
              (user_dict s)(userid \<mapsto> AList.update movieid movierating this_user_dict)
          | None \<Rightarrow> (user_dict s)(userid \<mapsto> [(movieid, movierating)]))\<rparr>)"
    (is "integrity ?t")
proof -
  define d' where "d' = (case user_dict s userid of
      Some d \<Rightarrow> AList.update movieid movierating d | None \<Rightarrow> [(movieid, movierating)])"
  have ud: "user_dict ?t = (user_dict s)(userid \<mapsto> d')"
    by (simp add: d'_def split: option.splits)
  have md: "movie_dict ?t = (movie_dict s)(movieid \<mapsto> mv\<lparr>users := users mv @ [userid]\<rparr>)"
    by simp
  have d'_map: "map_of d' movieid = Some movierating"
    by (simp add: d'_def update_conv' split: option.splits)
  have d'_old: "map_of d' k = map_of d k" if "user_dict s userid = Some d" "k \<noteq> movieid" for d k
    using that by (simp add: d'_def update_conv')
  have d'_keys: "fst ` set d' = insert movieid (case user_dict s userid of Some d \<Rightarrow> fst ` set d | None \<Rightarrow> {})"
    by (simp add: d'_def dom_update split: option.splits)
  have d'_ne: "d' \<noteq> []"
    by (simp add: d'_def split: option.splits)
  have d'_dist: "distinct (map fst d')"
  proof (cases "user_dict s userid")
    case None
    then show ?thesis by (simp add: d'_def)
  next
    case (Some d)
    then have "distinct (map fst d)" using i unfolding integrity_def by blast
    then show ?thesis by (simp add: d'_def Some distinct_update)
  qed
  show ?thesis
    unfolding integrity_def ud md
  proof (intro conjI allI impI)
    fix k m
    assume km: "((movie_dict s)(movieid \<mapsto> mv\<lparr>users := users mv @ [userid]\<rparr>)) k = Some m"
    show "id_movie m = k"
      using km integrity_id [OF i] mv by (auto split: if_splits)
    show "\<forall>u\<in>set (users m). \<exists>d. ((user_dict s)(userid \<mapsto> d')) u = Some d \<and> map_of d k \<noteq> None"
    proof
      fix u assume u: "u \<in> set (users m)"
      show "\<exists>d. ((user_dict s)(userid \<mapsto> d')) u = Some d \<and> map_of d k \<noteq> None"
      proof (cases "k = movieid")
        case True
        then have m: "m = mv\<lparr>users := users mv @ [userid]\<rparr>" using km by simp
        show ?thesis
        proof (cases "u = userid")
          case True
          then show ?thesis using d'_map \<open>k = movieid\<close> by simp
        next
          case False
          then have "u \<in> set (users mv)" using u m by simp
          from integrity_rater [OF i mv this] False True show ?thesis by auto
        qed
      next
        case False
        then have m: "movie_dict s k = Some m" using km by simp
        from integrity_rater [OF i m u] obtain d r where
          d: "user_dict s u = Some d" "map_of d k = Some r" by blast
        show ?thesis
        proof (cases "u = userid")
          case True
          then show ?thesis using d d'_old [of d k] False by simp
        next
          case False
          then show ?thesis using d by simp
        qed
      qed
    qed
  next
    fix u d
    assume ud': "((user_dict s)(userid \<mapsto> d')) u = Some d"
    show "d \<noteq> []"
      using ud' d'_ne integrity_nonempty [OF i] by (auto split: if_splits)
    show "distinct (map fst d)"
      using ud' d'_dist i unfolding integrity_def by (auto split: if_splits)
    show "\<forall>k\<in>fst ` set d.
            \<exists>m. ((movie_dict s)(movieid \<mapsto> mv\<lparr>users := users mv @ [userid]\<rparr>)) k = Some m \<and>
                u \<in> set (users m)"
    proof
      fix k assume k: "k \<in> fst ` set d"
      show "\<exists>m. ((movie_dict s)(movieid \<mapsto> mv\<lparr>users := users mv @ [userid]\<rparr>)) k = Some m \<and>
                u \<in> set (users m)"
      proof (cases "k = movieid")
        case True
        show ?thesis
        proof (cases "u = userid")
          case True
          then show ?thesis using \<open>k = movieid\<close> by simp
        next
          case False
          then have "user_dict s u = Some d" using ud' by simp
          moreover obtain r where "(k, r) \<in> set d" using k by auto
          ultimately obtain m where "movie_dict s k = Some m" "u \<in> set (users m)"
            using integrity_rated [OF i] by blast
          then show ?thesis using True mv by simp
        qed
      next
        case False
        have "\<exists>d0. user_dict s u = Some d0 \<and> k \<in> fst ` set d0"
        proof (cases "u = userid")
          case True
          then have "d = d'" using ud' by simp
          then have "k \<in> (case user_dict s userid of Some d \<Rightarrow> fst ` set d | None \<Rightarrow> {})"
            using k d'_keys False by simp
          then show ?thesis using True by (cases "user_dict s userid") auto
        next
          case False
          then show ?thesis using ud' k by simp
        qed
        then obtain d0 r where "user_dict s u = Some d0" "(k, r) \<in> set d0" by auto
        then obtain m where "movie_dict s k = Some m" "u \<in> set (users m)"
          using integrity_rated [OF i] by blast
        then show ?thesis using False by simp
      qed
    qed
  qed
qed

lemma load_ratings_integrity:
  "integrity s \<Longrightarrow> load_ratings rows s = Inr t \<Longrightarrow> integrity t"
proof (induction rows arbitrary: s)
  case Nil
  then show ?case by simp
next
  case (Cons row rows)
  obtain userid movieid movierating where row: "row = (userid, movieid, movierating)"
    by (cases row)
  show ?case
  proof (cases "movie_dict s movieid")
    case None
    then show ?thesis using Cons.prems(2) by (simp add: row)
  next
    case (Some mv)
    from Cons.prems(2) show ?thesis
      unfolding row load_ratings.simps Some option.case
      by (rule Cons.IH [OF integrity_rating_row [OF Cons.prems(1) Some]])
  qed
qed

lemma init_integrity: "init movie_rows rating_rows = Inr s \<Longrightarrow> integrity s"
  unfolding init_def by (rule load_ratings_integrity [OF integrity_start])

lemma example_init:
  "init [(1, ''A''), (2, ''B'')] [(10, 1, 4), (10, 2, 5), (11, 1, 2), (11, 2, 2), (12, 1, 3)] =
     Inr example"
  by (auto simp: init_def example_def Movie_def fun_eq_iff)

lemma similarity_value_cong:
  assumes eq: "catalog_data s = catalog_data t"
  shows "similarity_value s a b = similarity_value t a b"
proof -
  have ud: "user_dict s = user_dict t" using eq by (rule catalog_data_user_dict)
  have r: "rating_of s = rating_of t" by (simp add: rating_of_def fun_eq_iff ud)
  have av: "average_absolute_difference s a b c = average_absolute_difference t a b c" for c
    by (simp add: average_absolute_difference_def r)
  show ?thesis
  proof (cases "movie_dict s a")
    case None
    then show ?thesis using catalog_data_None [OF eq None] by (simp add: similarity_value_def)
  next
    case (Some ma)
    then obtain ma' where ma': "movie_dict t a = Some ma'" "users ma' = users ma"
      using catalog_data_Some [OF eq Some] by blast
    show ?thesis
    proof (cases "movie_dict s b")
      case None
      then show ?thesis
        using catalog_data_None [OF eq None] Some ma' by (simp add: similarity_value_def)
    next
      case Some': (Some mb)
      then obtain mb' where mb': "movie_dict t b = Some mb'" "users mb' = users mb"
        using catalog_data_Some [OF eq Some'] by blast
      have "common_users ma' mb' = common_users ma mb"
        by (simp add: common_users_def ma'(2) mb'(2))
      then show ?thesis
        by (simp add: similarity_value_def Some Some' ma'(1) mb'(1) av)
    qed
  qed
qed

lemma predict_loop_value:
  assumes "integrity s" and "movie_dict s m = Some mm"
    and "\<forall>p \<in> set d. movie_dict s (fst p) \<noteq> None"
  shows "fst (predict_loop m d p w s) =
           Inr (p + sum_list (map (\<lambda>(k, r). r * similarity_value s k m) d),
                w + sum_list (map (\<lambda>(k, r). similarity_value s k m) d))"
  using assms
proof (induction d arbitrary: p w s mm)
  case Nil
  show ?case by simp
next
  case (Cons x d)
  obtain k r where x: "x = (k, r)" by (cases x)
  obtain mk where mk: "movie_dict s k = Some mk" using Cons.prems(3) x by auto
  obtain res s1 where eq: "compute_similarity k m s = (res, s1)"
    by (cases "compute_similarity k m s")
  have res: "res = Inr (similarity_value s k m)"
    using compute_similarity_value [OF Cons.prems(1) mk Cons.prems(2)] eq by simp
  have cd: "catalog_data s = catalog_data s1"
    using catalog_data_compute [of k m s] eq by simp
  have i1: "integrity s1" using integrity_cong [OF cd Cons.prems(1)] .
  obtain mm1 where m1: "movie_dict s1 m = Some mm1"
    using catalog_data_Some [OF cd Cons.prems(2)] by blast
  have d1: "\<forall>p \<in> set d. movie_dict s1 (fst p) \<noteq> None"
  proof
    fix q assume "q \<in> set d"
    then have "movie_dict s (fst q) \<noteq> None" using Cons.prems(3) by simp
    then obtain y where "movie_dict s (fst q) = Some y" by auto
    from catalog_data_Some [OF cd this] show "movie_dict s1 (fst q) \<noteq> None" by auto
  qed
  have sp: "similarity_value s1 k' m = similarity_value s k' m" for k'
    using similarity_value_cong [OF cd] by simp
  have "fst (predict_loop m d (p + r * similarity_value s k m) (w + similarity_value s k m) s1) =
      Inr (p + r * similarity_value s k m + sum_list (map (\<lambda>(k, r). r * similarity_value s k m) d),
           w + similarity_value s k m + sum_list (map (\<lambda>(k, r). similarity_value s k m) d))"
    using Cons.IH [OF i1 m1 d1, of "p + r * similarity_value s k m" "w + similarity_value s k m"]
    by (simp only: sp)
  then show ?case
    by (simp add: x eq res add.assoc)
qed

lemma compute_similarity_KeyError:
  "movie_dict s a = Some ma \<Longrightarrow> users ma \<noteq> [] \<Longrightarrow> movie_dict s b = None \<Longrightarrow>
   fst (compute_similarity a b s) = Inl KeyError"
  by (simp add: compute_similarity_def Let_def)

lemma predict_rating_unrated:
  assumes i: "integrity s" and d: "user_dict s u = Some d" and n: "map_of d m = None"
    and m: "movie_dict s m = Some mm"
  shows "fst (predict_rating u m s) =
           Inr (if sum_list (map (\<lambda>(k, r). similarity_value s k m) d) = 0 then 5 / 2
                else sum_list (map (\<lambda>(k, r). r * similarity_value s k m) d) /
                     sum_list (map (\<lambda>(k, r). similarity_value s k m) d))"
proof -
  have all: "\<forall>p \<in> set d. movie_dict s (fst p) \<noteq> None"
  proof
    fix p assume "p \<in> set d"
    then have "(fst p, snd p) \<in> set d" by simp
    from integrity_rated [OF i d this] show "movie_dict s (fst p) \<noteq> None" by auto
  qed
  obtain res s1 where eq: "predict_loop m d 0 0 s = (res, s1)"
    by (cases "predict_loop m d 0 0 s")
  have "res = Inr (0 + sum_list (map (\<lambda>(k, r). r * similarity_value s k m) d),
                   0 + sum_list (map (\<lambda>(k, r). similarity_value s k m) d))"
    using predict_loop_value [OF i m all, of 0 0] eq by simp
  then show ?thesis
    by (simp add: predict_rating_def d n eq)
qed

lemma predict_rating_unknown_movie:
  assumes i: "integrity s" and d: "user_dict s u = Some d" and m: "movie_dict s m = None"
  shows "fst (predict_rating u m s) = Inl BadInputError"
proof -
  have ne: "d \<noteq> []" using integrity_nonempty [OF i d] .
  then obtain k r rest where dd: "d = (k, r) # rest" by (cases d) auto
  then have "(k, r) \<in> set d" by simp
  from integrity_rated [OF i d this] obtain mk where
    mk: "movie_dict s k = Some mk" "u \<in> set (users mk)" by blast
  have n: "map_of d m = None"
  proof (rule ccontr)
    assume "map_of d m \<noteq> None"
    then obtain r' where "map_of d m = Some r'" by blast
    then have "(m, r') \<in> set d" by (rule map_of_SomeD)
    from integrity_rated [OF i d this] m show False by simp
  qed
  obtain res s1 where eq: "compute_similarity k m s = (res, s1)"
    by (cases "compute_similarity k m s")
  have "users mk \<noteq> []" using mk(2) by auto
  from compute_similarity_KeyError [OF mk(1) this m] eq have "res = Inl KeyError" by simp
  then show ?thesis
    using n by (simp add: predict_rating_def d dd eq)
qed

lemma predict_rating_known:
  assumes "user_dict s u = Some d" and "map_of d m = Some r"
  shows "predict_rating u m s = (Inr r, s)"
  using assms by (simp add: predict_rating_def)

lemma predict_rating_cases:
  assumes i: "integrity s"
  shows "(user_dict s u = None \<or> movie_dict s m = None) \<and> fst (predict_rating u m s) = Inl BadInputError \<or>
         user_dict s u \<noteq> None \<and> movie_dict s m \<noteq> None \<and> (\<exists>r. fst (predict_rating u m s) = Inr r)"
proof (cases "user_dict s u")
  case None
  then show ?thesis by (simp add: predict_rating_def)
next
  case (Some d)
  show ?thesis
  proof (cases "movie_dict s m")
    case None
    then show ?thesis using predict_rating_unknown_movie [OF i Some None] by simp
  next
    case Some': (Some mm)
    show ?thesis
    proof (cases "map_of d m")
      case None
      then show ?thesis using predict_rating_unrated [OF i Some None Some'] Some Some' by simp
    next
      case Some'': (Some r)
      then show ?thesis using predict_rating_known [OF Some Some''] Some Some' by simp
    qed
  qed
qed

lemma similarity_value_self:
  assumes "movie_dict s m = Some mv"
  shows "similarity_value s m m = (if users mv = [] then 0 else 1)"
proof -
  have c: "common_users mv mv = users mv" by (simp add: common_users_def)
  show ?thesis
    by (simp add: similarity_value_def assms c average_absolute_difference_def)
qed

lemma self_cache_ok_computed [simp]: "self_cache_ok (s\<lparr>computed := c\<rparr>) = self_cache_ok s"
  by (simp add: self_cache_ok_def)

lemma store_similarity_lookup:
  "movie_dict (store_similarity key k v s) x =
     (if x = key then map_option (\<lambda>m. m\<lparr>similarities := (similarities m)(k \<mapsto> v)\<rparr>) (movie_dict s key)
      else movie_dict s x)"
  by (simp add: store_similarity_def split: option.splits)

lemma self_cache_ok_store:
  assumes ok: "self_cache_ok s"
    and new: "\<And>mv. key = k \<Longrightarrow> movie_dict s key = Some mv \<Longrightarrow> v = (if users mv = [] then 0 else 1)"
  shows "self_cache_ok (store_similarity key k v s)"
  unfolding self_cache_ok_def
proof (intro allI impI)
  fix m mv' v'
  assume h: "movie_dict (store_similarity key k v s) m = Some mv' \<and> similarities mv' m = Some v'"
  show "v' = (if users mv' = [] then 0 else 1)"
  proof (cases "m = key")
    case False
    then have "movie_dict s m = Some mv'" using h by (simp add: store_similarity_lookup)
    then show ?thesis using ok h unfolding self_cache_ok_def by blast
  next
    case True
    then obtain mv0 where mv0: "movie_dict s key = Some mv0"
      and mv': "mv' = mv0\<lparr>similarities := (similarities mv0)(k \<mapsto> v)\<rparr>"
      using h by (auto simp: store_similarity_lookup)
    have us: "users mv' = users mv0" using mv' by simp
    show ?thesis
    proof (cases "key = k")
      case True
      then have "v' = v" using h mv' \<open>m = key\<close> by simp
      then show ?thesis using new [OF True mv0] us by simp
    next
      case False
      then have "similarities mv0 key = Some v'" using h mv' \<open>m = key\<close> by simp
      then have "v' = (if users mv0 = [] then 0 else 1)"
        using ok mv0 unfolding self_cache_ok_def by blast
      then show ?thesis using us by simp
    qed
  qed
qed

lemma compute_similarity_snd:
  "\<exists>c. snd (compute_similarity a b s) = s\<lparr>computed := c\<rparr> \<or>
       (\<exists>v. fst (compute_similarity a b s) = Inr v \<and>
            snd (compute_similarity a b s) = store_similarity a b v (s\<lparr>computed := c\<rparr>))"
proof (cases "movie_dict s a")
  case None
  then have "snd (compute_similarity a b s) = s\<lparr>computed := computed s\<rparr>"
    by (simp add: compute_similarity_def)
  then show ?thesis by blast
next
  case (Some self)
  let ?c = "computed s @ [(a, b)]"
  have "snd (compute_similarity a b s) = s\<lparr>computed := ?c\<rparr> \<or>
       (\<exists>v. fst (compute_similarity a b s) = Inr v \<and>
            snd (compute_similarity a b s) = store_similarity a b v (s\<lparr>computed := ?c\<rparr>))"
    by (simp add: compute_similarity_def Some Let_def split: option.splits sum.splits)
  then show ?thesis by blast
qed

lemma self_cache_ok_compute:
  assumes i: "integrity s" and ok: "self_cache_ok s"
  shows "self_cache_ok (snd (compute_similarity a b s))"
proof -
  from compute_similarity_snd [of a b s] obtain c where
    c: "snd (compute_similarity a b s) = s\<lparr>computed := c\<rparr> \<or>
       (\<exists>v. fst (compute_similarity a b s) = Inr v \<and>
            snd (compute_similarity a b s) = store_similarity a b v (s\<lparr>computed := c\<rparr>))"
    by blast
  then show ?thesis
  proof
    assume "snd (compute_similarity a b s) = s\<lparr>computed := c\<rparr>"
    then show ?thesis using ok by simp
  next
    assume "\<exists>v. fst (compute_similarity a b s) = Inr v \<and>
            snd (compute_similarity a b s) = store_similarity a b v (s\<lparr>computed := c\<rparr>)"
    then obtain v where v: "fst (compute_similarity a b s) = Inr v"
      and s1: "snd (compute_similarity a b s) = store_similarity a b v (s\<lparr>computed := c\<rparr>)"
      by blast
    have "self_cache_ok (store_similarity a b v (s\<lparr>computed := c\<rparr>))"
    proof (rule self_cache_ok_store)
      show "self_cache_ok (s\<lparr>computed := c\<rparr>)" using ok by simp
    next
      fix mv assume ab: "a = b" and "movie_dict (s\<lparr>computed := c\<rparr>) a = Some mv"
      then have mv: "movie_dict s a = Some mv" by simp
      have "fst (compute_similarity a a s) = Inr (similarity_value s a a)"
        using compute_similarity_value [OF i mv mv] .
      then show "v = (if users mv = [] then 0 else 1)"
        using v ab similarity_value_self [OF mv] by simp
    qed
    then show ?thesis using s1 by simp
  qed
qed

lemma get_similarity_miss:
  assumes a: "movie_dict s a = Some ma" and n: "similarities ma b = None"
    and b: "movie_dict s b \<noteq> None" and v: "fst (compute_similarity a b s) = Inr v"
  shows "get_similarity a b s =
           (Inr v, store_similarity b (id_movie ma) v
                     (store_similarity a b v (snd (compute_similarity a b s))))"
proof -
  obtain s1 where eq: "compute_similarity a b s = (Inr v, s1)"
    using v by (cases "compute_similarity a b s") auto
  have cd: "catalog_data s = catalog_data s1"
    using catalog_data_compute [of a b s] eq by simp
  obtain mb where "movie_dict s b = Some mb" using b by auto
  from catalog_data_Some [OF cd this] obtain mb1 where "movie_dict s1 b = Some mb1" by blast
  then have "movie_dict (store_similarity a b v s1) b \<noteq> None"
    by (auto simp: store_similarity_lookup)
  then show ?thesis
    by (auto simp: get_similarity_def a n eq Let_def)
qed

lemma self_cache_ok_get_similarity:
  assumes i: "integrity s" and ok: "self_cache_ok s"
  shows "self_cache_ok (snd (get_similarity a b s))"
proof (cases "movie_dict s a")
  case None
  then show ?thesis using ok by (simp add: get_similarity_def)
next
  case (Some ma)
  have ida: "id_movie ma = a" using integrity_id [OF i Some] .
  show ?thesis
  proof (cases "similarities ma b")
    case Some': (Some v)
    then show ?thesis using ok by (simp add: get_similarity_def Some)
  next
    case None
    obtain res s1 where eq: "compute_similarity a b s = (res, s1)"
      by (cases "compute_similarity a b s")
    have ok1: "self_cache_ok s1" using self_cache_ok_compute [OF i ok, of a b] eq by simp
    have cd: "catalog_data s = catalog_data s1"
      using catalog_data_compute [of a b s] eq by simp
    show ?thesis
    proof (cases res)
      case (Inl e)
      then show ?thesis using ok1 by (simp add: get_similarity_def Some None eq)
    next
      case (Inr v)
      have self: "v = (if users mv = [] then 0 else 1)"
        if ab: "a = b" and mv: "movie_dict s' a = Some mv" and cd': "catalog_data s = catalog_data s'"
        for mv s'
      proof -
        have u: "users ma = users mv"
          using catalog_data_Some [OF cd' Some] mv by auto
        have "fst (compute_similarity a a s) = Inr (similarity_value s a a)"
          using compute_similarity_value [OF i Some Some] .
        then show ?thesis
          using eq Inr ab similarity_value_self [OF Some] u by simp
      qed
      have ok2: "self_cache_ok (store_similarity a b v s1)"
        by (rule self_cache_ok_store [OF ok1]) (rule self [OF _ _ cd])
      have cd2: "catalog_data s = catalog_data (store_similarity a b v s1)"
        using cd by simp
      have ok3: "self_cache_ok (store_similarity b a v (store_similarity a b v s1))"
        by (rule self_cache_ok_store [OF ok2]) (rule self [OF sym _ cd2], simp_all)
      show ?thesis
        using ok2 ok3 by (simp add: get_similarity_def Some None eq Inr Let_def ida split: option.splits)
    qed
  qed
qed

lemma invariant_predict_loop:
  assumes "integrity s" and "self_cache_ok s"
  shows "self_cache_ok (snd (predict_loop m d p w s))"
  using assms
proof (induction d arbitrary: p w s)
  case Nil
  then show ?case by simp
next
  case (Cons x d)
  obtain k r where x: "x = (k, r)" by (cases x)
  obtain res s1 where eq: "compute_similarity k m s = (res, s1)"
    by (cases "compute_similarity k m s")
  have ok1: "self_cache_ok s1"
    using self_cache_ok_compute [OF Cons.prems, of k m] eq by simp
  have cd: "catalog_data s = catalog_data s1"
    using catalog_data_compute [of k m s] eq by simp
  have i1: "integrity s1" using integrity_cong [OF cd Cons.prems(1)] .
  show ?case
    using ok1 Cons.IH [OF i1 ok1] by (cases res) (simp_all add: x eq)
qed

lemma self_cache_ok_predict_rating:
  assumes "integrity s" and "self_cache_ok s"
  shows "self_cache_ok (snd (predict_rating u m s))"
proof (cases "user_dict s u")
  case None
  then show ?thesis using assms(2) by (simp add: predict_rating_def)
next
  case (Some d)
  obtain res s1 where eq: "predict_loop m d 0 0 s = (res, s1)"
    by (cases "predict_loop m d 0 0 s")
  have "self_cache_ok s1" using invariant_predict_loop [OF assms, of m d 0 0] eq by simp
  then show ?thesis
    using assms(2) by (cases res) (auto simp: predict_rating_def Some eq split: option.splits)
qed

lemma load_movies_caches:
  "\<forall>k m. md k = Some m \<longrightarrow> similarities m = Map.empty \<Longrightarrow>
   load_movies rows md k = Some m \<Longrightarrow> similarities m = Map.empty"
proof (induction rows arbitrary: md)
  case Nil
  then show ?case by simp
next
  case (Cons row rows)
  obtain i t where row: "row = (i, t)" by (cases row)
  have h: "\<forall>k m. (md(i \<mapsto> Movie i t)) k = Some m \<longrightarrow> similarities m = Map.empty"
    using Cons.prems(1) by (auto simp: Movie_def)
  have "load_movies rows (md(i \<mapsto> Movie i t)) k = Some m"
    using Cons.prems(2) by (simp add: row)
  from Cons.IH [OF h this] show ?case .
qed

lemma load_ratings_caches:
  "\<forall>k m. movie_dict s k = Some m \<longrightarrow> similarities m = Map.empty \<Longrightarrow>
   load_ratings rows s = Inr t \<Longrightarrow> movie_dict t k = Some m \<Longrightarrow> similarities m = Map.empty"
proof (induction rows arbitrary: s)
  case Nil
  then show ?case by simp
next
  case (Cons row rows)
  obtain userid movieid movierating where row: "row = (userid, movieid, movierating)"
    by (cases row)
  show ?case
  proof (cases "movie_dict s movieid")
    case None
    then show ?thesis using Cons.prems(2) by (simp add: row)
  next
    case (Some mv)
    let ?s = "s\<lparr>movie_dict := (movie_dict s)(movieid \<mapsto> mv\<lparr>users := users mv @ [userid]\<rparr>),
       user_dict :=
         (case user_dict s userid of
            Some this_user_dict \<Rightarrow>
              (user_dict s)(userid \<mapsto> AList.update movieid movierating this_user_dict)
          | None \<Rightarrow> (user_dict s)(userid \<mapsto> [(movieid, movierating)]))\<rparr>"
    have h: "\<forall>k m. movie_dict ?s k = Some m \<longrightarrow> similarities m = Map.empty"
      using Cons.prems(1) Some by auto
    have l: "load_ratings rows ?s = Inr t"
      using Cons.prems(2) by (simp add: row Some)
    from Cons.IH [OF h l Cons.prems(3)] show ?thesis .
  qed
qed

lemma self_cache_ok_init: "init movie_rows rating_rows = Inr s \<Longrightarrow> self_cache_ok s"
proof -
  assume l: "init movie_rows rating_rows = Inr s"
  let ?s0 = "\<lparr>movie_dict = load_movies movie_rows Map.empty, user_dict = Map.empty, computed = []\<rparr>"
  have h: "\<forall>k m. movie_dict ?s0 k = Some m \<longrightarrow> similarities m = Map.empty"
    using load_movies_caches [of Map.empty movie_rows] by simp
  have "similarities m = Map.empty" if "movie_dict s k = Some m" for k m
    using load_ratings_caches [OF h l [unfolded init_def] that] .
  then show ?thesis unfolding self_cache_ok_def by fastforce
qed

lemma reachable_invariant: "reachable s \<Longrightarrow> integrity s \<and> self_cache_ok s"
proof (induction rule: reachable.induct)
  case (loaded movie_rows rating_rows s)
  then show ?case using init_integrity self_cache_ok_init by blast
next
  case (after_get_similarity s a b)
  then show ?case
    using integrity_cong [of s "snd (get_similarity a b s)"] self_cache_ok_get_similarity
    by simp
next
  case (after_compute_similarity s a b)
  then show ?case
    using integrity_cong [of s "snd (compute_similarity a b s)"] self_cache_ok_compute
    by simp
next
  case (after_predict_rating s u m)
  then show ?case
    using integrity_cong [of s "snd (predict_rating u m s)"] self_cache_ok_predict_rating
    by simp
qed

lemma predict_rating_fst_cong:
  assumes i: "integrity s" and cd: "catalog_data s = catalog_data t"
  shows "fst (predict_rating u m t) = fst (predict_rating u m s)"
proof -
  have it: "integrity t" using integrity_cong [OF cd i] .
  have ud: "user_dict t = user_dict s" using catalog_data_user_dict [OF cd] by simp
  show ?thesis
  proof (cases "user_dict s u")
    case None
    then show ?thesis using ud by (simp add: predict_rating_def)
  next
    case (Some d)
    then have dt: "user_dict t u = Some d" using ud by simp
    show ?thesis
    proof (cases "map_of d m")
      case Some': (Some r)
      show ?thesis
        using predict_rating_known [OF Some Some'] predict_rating_known [OF dt Some'] by simp
    next
      case None
      show ?thesis
      proof (cases "movie_dict s m")
        case None': None
        have "movie_dict t m = None" using catalog_data_None [OF cd None'] .
        then show ?thesis
          using predict_rating_unknown_movie [OF i Some None']
            predict_rating_unknown_movie [OF it dt] by simp
      next
        case Some'': (Some mm)
        obtain mm' where mt: "movie_dict t m = Some mm'"
          using catalog_data_Some [OF cd Some''] by blast
        have sp: "similarity_value t k m = similarity_value s k m" for k
          using similarity_value_cong [OF cd] by simp
        show ?thesis
          using predict_rating_unrated [OF i Some None Some'']
            predict_rating_unrated [OF it dt None mt]
          by (simp only: sp)
      qed
    qed
  qed
qed

lemma expected_tuple_cong:
  assumes i: "integrity s" and cd: "catalog_data s = catalog_data t"
  shows "expected_tuple t row = expected_tuple s row"
proof -
  obtain u m a where row: "row = (u, m, a)" by (cases row)
  have ti: "(case movie_dict t m of None \<Rightarrow> [] | Some mv \<Rightarrow> title mv) =
            (case movie_dict s m of None \<Rightarrow> [] | Some mv \<Rightarrow> title mv)"
  proof (cases "movie_dict s m")
    case None
    then show ?thesis using catalog_data_None [OF cd None] by simp
  next
    case (Some mv)
    then show ?thesis using catalog_data_Some [OF cd Some] by auto
  qed
  show ?thesis
    by (simp add: expected_tuple_def row ti predict_rating_fst_cong [OF i cd])
qed

lemma raises_BadInput_cong:
  assumes i: "integrity s" and cd: "catalog_data s = catalog_data t"
  shows "raises_BadInput t row = raises_BadInput s row"
  by (cases row) (simp add: raises_BadInput_def predict_rating_fst_cong [OF i cd])

lemma processed_rows_cong:
  assumes i: "integrity s" and cd: "catalog_data s = catalog_data t"
  shows "processed_rows t rows = processed_rows s rows"
  by (induction rows) (simp_all add: raises_BadInput_cong [OF i cd])

lemma predict_ratings_loop_value:
  assumes "integrity s"
  shows "predict_ratings_loop rows tuples s =
           (if \<exists>row \<in> set rows. raises_BadInput s row then Inl BadInputError
            else Inr (tuples @ map (expected_tuple s) rows),
            state_after s (processed_rows s rows))"
  using assms
proof (induction rows arbitrary: tuples s)
  case Nil
  show ?case by simp
next
  case (Cons row rows)
  obtain u m a where row: "row = (u, m, a)" by (cases row)
  obtain res s1 where eq: "predict_rating u m s = (res, s1)"
    by (cases "predict_rating u m s")
  have cd: "catalog_data s = catalog_data s1"
    using catalog_data_predict_rating [of u m s] eq by simp
  have i1: "integrity s1" using integrity_cong [OF cd Cons.prems] .
  from predict_rating_cases [OF Cons.prems, of u m] eq
  consider "res = Inl BadInputError" | r where "res = Inr r" "movie_dict s m \<noteq> None"
    by auto
  then show ?case
  proof cases
    case 1
    then show ?thesis by (simp add: row eq raises_BadInput_def)
  next
    case 2
    then obtain mv where mv: "movie_dict s m = Some mv" by auto
    obtain mv1 where mv1: "movie_dict s1 m = Some mv1" "title mv1 = title mv"
      using catalog_data_Some [OF cd mv] by blast
    have nr: "\<not> raises_BadInput s (u, m, a)"
      using 2(1) eq by (simp add: raises_BadInput_def)
    have et: "expected_tuple s (u, m, a) = (u, title mv, r, a)"
      using 2(1) eq mv by (simp add: expected_tuple_def)
    have rb: "(\<exists>row \<in> set rows. raises_BadInput s1 row) = (\<exists>row \<in> set rows. raises_BadInput s row)"
      using raises_BadInput_cong [OF Cons.prems cd] by simp
    have em: "map (expected_tuple s1) rows = map (expected_tuple s) rows"
      using expected_tuple_cong [OF Cons.prems cd] by simp
    have pr: "processed_rows s1 rows = processed_rows s rows"
      using processed_rows_cong [OF Cons.prems cd] .
    have "predict_ratings_loop rows (tuples @ [(u, title mv, r, a)]) s1 =
           (if \<exists>row \<in> set rows. raises_BadInput s row then Inl BadInputError
            else Inr ((tuples @ [(u, title mv, r, a)]) @ map (expected_tuple s) rows),
            state_after s1 (processed_rows s rows))"
      using Cons.IH [OF i1, of "tuples @ [(u, title mv, r, a)]"] by (simp only: rb em pr)
    then show ?thesis
      using nr by (simp add: row eq 2(1) mv1 et)
  qed
qed

lemma after_predict_eq:
  "predict_rating 12 2 example =
     (Inr 3,
      example\<lparr>computed := [(1, 2)],
        movie_dict := (movie_dict example)
          (1 \<mapsto> \<lparr>id_movie = 1, title = ''A'', users = [10, 11, 12],
                similarities = [2 \<mapsto> 8 / 9]\<rparr>)\<rparr>)"
  by (simp add: predict_rating_def compute_similarity_def common_users_def Let_def example_def
      store_similarity_def)

lemma cache_of_store:
  "cache_of (store_similarity key k v s) x y =
     (if x = key \<and> y = k \<and> movie_dict s key \<noteq> None then Some v else cache_of s x y)"
  by (auto simp: cache_of_def store_similarity_lookup split: option.splits)

lemma get_similarity_hit: "cache_of s a b = Some v \<Longrightarrow> get_similarity a b s = (Inr v, s)"
  by (auto simp: cache_of_def get_similarity_def split: option.splits)

lemma caches_symmetric_init:
  assumes "init movie_rows rating_rows = Inr s"
  shows "caches_symmetric s"
proof -
  let ?s0 = "\<lparr>movie_dict = load_movies movie_rows Map.empty, user_dict = Map.empty, computed = []\<rparr>"
  have h: "\<forall>k m. movie_dict ?s0 k = Some m \<longrightarrow> similarities m = Map.empty"
    using load_movies_caches [of Map.empty movie_rows] by simp
  have "similarities m = Map.empty" if "movie_dict s k = Some m" for k m
    using load_ratings_caches [OF h assms [unfolded init_def] that] .
  then have "cache_of s a b = None" for a b
    by (simp add: cache_of_def split: option.splits)
  then show ?thesis by (simp add: caches_symmetric_def)
qed

lemma get_similarity_symmetric:
  assumes i: "integrity s" and sym: "caches_symmetric s"
    and a: "movie_dict s a = Some ma" and b: "movie_dict s b = Some mb" and ab: "a \<noteq> b"
  shows "\<exists>v. fst (get_similarity a b s) = Inr v \<and>
             cache_of (snd (get_similarity a b s)) a b = Some v \<and>
             cache_of (snd (get_similarity a b s)) b a = Some v \<and>
             get_similarity b a (snd (get_similarity a b s)) = (Inr v, snd (get_similarity a b s)) \<and>
             get_similarity a b (snd (get_similarity a b s)) = (Inr v, snd (get_similarity a b s))"
proof (cases "similarities ma b")
  case (Some v)
  then have c: "cache_of s a b = Some v" by (simp add: cache_of_def a)
  then have c': "cache_of s b a = Some v" using sym unfolding caches_symmetric_def by blast
  show ?thesis
    using get_similarity_hit [OF c] get_similarity_hit [OF c'] c c' by simp
next
  case None
  let ?v = "similarity_value s a b"
  let ?s1 = "snd (compute_similarity a b s)"
  let ?s3 = "store_similarity b a ?v (store_similarity a b ?v ?s1)"
  have v: "fst (compute_similarity a b s) = Inr ?v"
    using compute_similarity_value [OF i a b] .
  have "movie_dict s b \<noteq> None" using b by simp
  from get_similarity_miss [OF a None this v]
  have g: "get_similarity a b s = (Inr ?v, ?s3)"
    by (simp add: integrity_id [OF i a])
  have cd: "catalog_data s = catalog_data ?s1" by simp
  obtain ma1 where a1: "movie_dict ?s1 a = Some ma1" using catalog_data_Some [OF cd a] by blast
  obtain mb1 where b1: "movie_dict ?s1 b = Some mb1" using catalog_data_Some [OF cd b] by blast
  have b2: "movie_dict (store_similarity a b ?v ?s1) b \<noteq> None"
    using b1 ab by (simp add: store_similarity_lookup)
  have cab: "cache_of ?s3 a b = Some ?v"
    using ab a1 by (simp add: cache_of_store)
  have cba: "cache_of ?s3 b a = Some ?v"
    using b2 by (simp add: cache_of_store)
  show ?thesis
    using g get_similarity_hit [OF cab] get_similarity_hit [OF cba] cab cba by simp
qed

section \<open>The claims\<close>

text \<open>
  C1 (the value of \<^verbatim>\<open>compute_similarity\<close> and its independence of the order of the
  raters) and C2 (the value of \<^verbatim>\<open>predict_rating\<close> and its test for a zero weight sum)
  are statements about the result of a computation on IEEE doubles: a rounded sum, rounded
  quotients and an exact comparison of a rounded sum with 0. In the exact arithmetic of this
  model they would be statements about another computation, so they are not stated here.
\<close>

subsection \<open>C3: exact recall\<close>

text \<open>
  C3. When the user has a recorded rating \<open>r\<close> for the movie, \<^verbatim>\<open>predict_rating\<close> returns
  exactly \<open>r\<close>, whatever else the catalog holds, and leaves the whole state as it was:
  no cache is written and \<^verbatim>\<open>compute_similarity\<close> is not entered.
\<close>

theorem predict_rating_exact_recall:
  assumes "user_dict s u = Some d" and "map_of d m = Some r"
  shows "predict_rating u m s = (Inr r, s)"
  using assms by (simp add: predict_rating_def)

theorem predict_rating_exact_recall_witness:
  "user_dict example 10 = Some [(1, 4), (2, 5)] \<and> map_of [(1, 4 :: real), (2, 5)] (2 :: int) = Some 5 \<and>
   predict_rating 10 2 example = (Inr 5, example)"
proof -
  have d: "user_dict example 10 = Some [(1, 4), (2, 5)]" by (simp add: example_def)
  have r: "map_of [(1, 4 :: real), (2, 5)] (2 :: int) = Some 5" by simp
  show ?thesis using d r predict_rating_exact_recall [OF d r] by simp
qed

subsection \<open>C4: BadInput exactly on an unknown user or movie\<close>

text \<open>
  C4. In a catalog that satisfies the integrity conditions (which include that every known
  user has rated at least one movie), \<^verbatim>\<open>predict_rating\<close> raises \<^verbatim>\<open>BadInputError\<close> if and
  only if the user id is not a key of \<^verbatim>\<open>user_dict\<close> or the movie id is not a key of
  \<^verbatim>\<open>movie_dict\<close>; the exception reaches the caller as the result of the call, and no other
  exception is raised.
\<close>

theorem predict_rating_BadInput_iff:
  assumes "integrity s"
  shows "(fst (predict_rating u m s) = Inl BadInputError \<longleftrightarrow>
            user_dict s u = None \<or> movie_dict s m = None) \<and>
         (\<forall>e. fst (predict_rating u m s) = Inl e \<longrightarrow> e = BadInputError)"
  using predict_rating_cases [OF assms, of u m] by auto

theorem predict_rating_BadInput_iff_witness:
  "integrity example \<and> movie_dict example 3 = None \<and>
   fst (predict_rating 12 3 example) = Inl BadInputError \<and>
   user_dict example 13 = None \<and> fst (predict_rating 13 1 example) = Inl BadInputError \<and>
   fst (predict_rating 12 2 example) \<noteq> Inl BadInputError"
proof -
  have i: "integrity example" by (rule init_integrity [OF example_init])
  have m3: "movie_dict example 3 = None" by (simp add: example_def)
  have u13: "user_dict example 13 = None" by (simp add: example_def)
  have u12: "user_dict example 12 \<noteq> None" by (simp add: example_def)
  have m2: "movie_dict example 2 \<noteq> None" by (simp add: example_def)
  show ?thesis
    using i m3 u13 u12 m2 predict_rating_BadInput_iff [OF i, of 12 3]
      predict_rating_BadInput_iff [OF i, of 13 1] predict_rating_BadInput_iff [OF i, of 12 2]
    by simp
qed

subsection \<open>C5, C6, C7: the caches after a prediction\<close>

text \<open>
  The three statements below run the program on the catalog \<open>example\<close>: movies 1 and 2,
  users 10 and 11 who rated both, and user 12 who rated movie 1 only.

  C5 says that the caches stay symmetric after every sequence of \<^verbatim>\<open>get_similarity\<close> and
  \<^verbatim>\<open>predict_rating\<close> calls. \<^verbatim>\<open>predict_rating\<close> calls \<^verbatim>\<open>compute_similarity\<close>, whose own
  store (line 206) writes the cache of the calling movie only: after predicting the rating of
  user 12 for movie 2, movie 1 holds an entry for movie 2 and movie 2 holds none for movie 1.
\<close>

theorem predict_rating_writes_one_cache:
  "fst (predict_rating 12 2 example) = Inr 3 \<and>
   cache_of (snd (predict_rating 12 2 example)) 1 2 = Some (8 / 9) \<and>
   cache_of (snd (predict_rating 12 2 example)) 2 1 = None"
  by (simp only: after_predict_eq fst_conv snd_conv) (simp add: cache_of_def example_def)

text \<open>
  C6 says that the similarity of an unordered pair is computed at most once.
  \<^verbatim>\<open>predict_rating\<close> never reads a cache: the same prediction asked twice enters
  \<^verbatim>\<open>compute_similarity\<close> for the pair (1, 2) twice, and a \<^verbatim>\<open>get_similarity\<close> of movie 2
  with movie 1 after the prediction computes the pair once more.
\<close>

theorem predict_rating_computes_again:
  "computed example = [] \<and>
   computed (snd (predict_rating 12 2 example)) = [(1, 2)] \<and>
   computed (snd (predict_rating 12 2 (snd (predict_rating 12 2 example)))) = [(1, 2), (1, 2)] \<and>
   computed (snd (get_similarity 2 1 (snd (predict_rating 12 2 example)))) = [(1, 2), (2, 1)]"
  by (simp only: after_predict_eq fst_conv snd_conv)
    (simp add: predict_rating_def get_similarity_def compute_similarity_def common_users_def Let_def
      example_def store_similarity_def)

text \<open>
  C7 says that after \<^verbatim>\<open>get_similarity\<close> of a pair both movies' caches contain the pair.
  After the prediction above, \<^verbatim>\<open>get_similarity\<close> of movie 1 with movie 2 is answered from
  the cache of movie 1 and the cache of movie 2 still has no entry for movie 1.
\<close>

theorem get_similarity_hit_leaves_other_cache_empty:
  "fst (get_similarity 1 2 (snd (predict_rating 12 2 example))) = Inr (8 / 9) \<and>
   cache_of (snd (get_similarity 1 2 (snd (predict_rating 12 2 example)))) 1 2 = Some (8 / 9) \<and>
   cache_of (snd (get_similarity 1 2 (snd (predict_rating 12 2 example)))) 2 1 = None"
  by (simp only: after_predict_eq fst_conv snd_conv)
    (simp add: get_similarity_def cache_of_def example_def)

subsection \<open>C8: the batch evaluator\<close>

text \<open>
  C8. In a catalog that satisfies the integrity conditions, \<^verbatim>\<open>predict_ratings\<close> returns one
  tuple (user id, movie title, predicted rating, actual rating) for each row, in the order of
  the rows, nothing removed and nothing merged, the predicted rating being what
  \<^verbatim>\<open>predict_rating\<close> returns for the row's user and movie (\<open>expected_tuple\<close>). When
  \<^verbatim>\<open>predict_rating\<close> raises \<^verbatim>\<open>BadInputError\<close> for some row, the whole call raises
  \<^verbatim>\<open>BadInputError\<close> and returns no tuple at all, and it stops there: the state it leaves
  is the one left by the calls of \<^verbatim>\<open>predict_rating\<close> for the rows up to and including the
  first row that raises, so no later row is predicted.
\<close>

theorem predict_ratings_tuples:
  assumes "integrity s"
  shows "predict_ratings rows s =
           (if \<exists>row \<in> set rows. raises_BadInput s row then Inl BadInputError
            else Inr (map (expected_tuple s) rows),
            state_after s (processed_rows s rows))"
  using predict_ratings_loop_value [OF assms, of rows "[]"] by (simp add: predict_ratings_def)

theorem predict_ratings_tuples_witness:
  "integrity example \<and>
   fst (predict_ratings [(12, 2, 4), (10, 1, 5), (12, 2, 1)] example) =
     Inr [(12, ''B'', 3, 4), (10, ''A'', 4, 5), (12, ''B'', 3, 1)] \<and>
   computed (snd (predict_ratings [(12, 2, 4), (10, 1, 5), (12, 2, 1)] example)) = [(1, 2), (1, 2)] \<and>
   fst (predict_ratings [(12, 2, 4), (12, 3, 5), (12, 2, 1)] example) = Inl BadInputError \<and>
   computed (snd (predict_ratings [(12, 2, 4), (12, 3, 5), (12, 2, 1)] example)) = [(1, 2), (1, 3)]"
proof -
  let ?s1 = "example\<lparr>computed := [(1, 2)],
        movie_dict := (movie_dict example)
          (1 \<mapsto> \<lparr>id_movie = 1, title = ''A'', users = [10, 11, 12],
                similarities = [2 \<mapsto> 8 / 9]\<rparr>)\<rparr>"
  have i: "integrity example" by (rule init_integrity [OF example_init])
  have p1: "predict_rating 12 2 example = (Inr 3, ?s1)" by (rule after_predict_eq)
  have p2: "predict_rating 10 1 ?s1 = (Inr 4, ?s1)"
    by (simp add: predict_rating_def example_def)
  have p2': "fst (predict_rating 10 1 example) = Inr 4"
    by (simp add: predict_rating_def example_def)
  have p3: "fst (predict_rating 12 3 example) = Inl BadInputError"
    by (simp add: predict_rating_def compute_similarity_def common_users_def Let_def example_def)
  have c3: "computed (snd (predict_rating 12 3 ?s1)) = [(1, 2), (1, 3)]"
    by (simp add: predict_rating_def compute_similarity_def common_users_def Let_def example_def)
  have c1: "computed (snd (predict_rating 12 2 ?s1)) = [(1, 2), (1, 2)]"
    by (simp add: predict_rating_def compute_similarity_def common_users_def Let_def example_def
        store_similarity_def)
  have t1: "movie_dict example 1 = Some \<lparr>id_movie = 1, title = ''A'', users = [10, 11, 12], similarities = Map.empty\<rparr>"
    by (simp add: example_def)
  have t2: "movie_dict example 2 = Some \<lparr>id_movie = 2, title = ''B'', users = [10, 11], similarities = Map.empty\<rparr>"
    by (simp add: example_def)
  have a: "predict_ratings [(12, 2, 4), (10, 1, 5), (12, 2, 1)] example =
     (Inr [(12, ''B'', 3, 4), (10, ''A'', 4, 5), (12, ''B'', 3, 1)], snd (predict_rating 12 2 ?s1))"
    using predict_ratings_tuples [OF i, of "[(12, 2, 4), (10, 1, 5), (12, 2, 1)]"]
    by (simp add: raises_BadInput_def expected_tuple_def p1 p2 p2' t1 t2)
  have b: "predict_ratings [(12, 2, 4), (12, 3, 5), (12, 2, 1)] example =
     (Inl BadInputError, snd (predict_rating 12 3 ?s1))"
    using predict_ratings_tuples [OF i, of "[(12, 2, 4), (12, 3, 5), (12, 2, 1)]"]
    by (simp add: raises_BadInput_def p1 p3)
  show ?thesis using i by (simp only: a b c1 c3 fst_conv snd_conv)
qed

subsection \<open>C9: what the operations leave unchanged\<close>

text \<open>
  C9. Every call of \<^verbatim>\<open>predict_rating\<close>, \<^verbatim>\<open>get_similarity\<close> or \<^verbatim>\<open>compute_similarity\<close>,
  whether it returns or raises, leaves \<^verbatim>\<open>user_dict\<close> unchanged and leaves the keys of
  \<^verbatim>\<open>movie_dict\<close> and the id, title and rater list of every movie unchanged
  (\<open>catalog_data\<close> is exactly this part of the state). Only the \<^verbatim>\<open>similarities\<close>
  dictionaries can change.
\<close>

theorem operations_preserve_catalog_data:
  "catalog_data (snd (predict_rating u m s)) = catalog_data s \<and>
   catalog_data (snd (get_similarity a b s)) = catalog_data s \<and>
   catalog_data (snd (compute_similarity a b s)) = catalog_data s"
  by simp

subsection \<open>C10: the similarity of a movie with itself\<close>

text \<open>
  C10. In every state reached from a loaded catalog by calls of \<^verbatim>\<open>get_similarity\<close>,
  \<^verbatim>\<open>compute_similarity\<close> and \<^verbatim>\<open>predict_rating\<close>, for a movie \<open>m\<close> of the catalog the call
  \<^verbatim>\<open>get_similarity\<close> of \<open>m\<close> with itself is accepted and returns exactly 1 when \<open>m\<close> has at
  least one rater and exactly 0 when it has none.
\<close>

theorem get_similarity_self:
  assumes r: "reachable s" and m: "movie_dict s m = Some mv"
  shows "fst (get_similarity m m s) = Inr (if users mv = [] then 0 else 1)"
proof -
  have i: "integrity s" and ok: "self_cache_ok s" using reachable_invariant [OF r] by simp_all
  show ?thesis
  proof (cases "similarities mv m")
    case (Some v)
    then have "v = (if users mv = [] then 0 else 1)"
      using ok m unfolding self_cache_ok_def by blast
    then show ?thesis by (simp add: get_similarity_def m Some)
  next
    case None
    have v: "fst (compute_similarity m m s) = Inr (similarity_value s m m)"
      using compute_similarity_value [OF i m m] .
    have "movie_dict s m \<noteq> None" using m by simp
    from get_similarity_miss [OF m None this v] show ?thesis
      by (simp add: similarity_value_self [OF m])
  qed
qed

theorem get_similarity_self_witness:
  "reachable (snd (predict_rating 12 2 example)) \<and>
   map_option users (movie_dict (snd (predict_rating 12 2 example)) 1) = Some [10, 11, 12] \<and>
   fst (get_similarity 1 1 (snd (predict_rating 12 2 example))) = Inr 1"
proof -
  let ?s = "snd (predict_rating 12 2 example)"
  have r: "reachable ?s"
    by (rule reachable.after_predict_rating [OF reachable.loaded [OF example_init]])
  obtain mv where mv: "movie_dict ?s 1 = Some mv" and us: "users mv = [10, 11, 12]"
    using catalog_data_Some [of example ?s 1] by (auto simp: example_def)
  from get_similarity_self [OF r mv] show ?thesis using r mv us by simp
qed


end
